theory Spec2Isabelle
  imports Main "HOL-Library.Char_ord"
begin

section \<open>Text: the string operations the extractor uses\<close>

text \<open>
  Python's \<^verbatim>\<open>str\<close> is modelled by \<^typ>\<open>string\<close>, one \<^typ>\<open>char\<close> per code point, so
  the model covers text of code points below 256. There \<open>isspace\<close>, \<open>strip\<close> and
  \<open>len\<close> are Python's. \<open>lower\<close> and \<open>title\<close> of the model change the case of the letters
  A to Z and a to z only; Python's also change the case of letters above 127. The
  patterns, the gazetteer and the style names of the program hold no such letter, and
  under \<^verbatim>\<open>re.IGNORECASE\<close> no character of this range but A to Z and a to z matches a
  letter of a pattern: a match holds only these letters and whitespace, and whether a
  lower-cased name occurs in the lower-cased text is not changed. So the extractors of
  the model return on such text what the program returns.
\<close>

definition isspace :: "char \<Rightarrow> bool" where
  \<comment> \<open>\<^verbatim>\<open>str.isspace\<close> and the class \<^verbatim>\<open>\s\<close>: TAB, LF, VT, FF, CR, FS, GS, RS, US, SPACE,
      NEL (U+0085) and NO-BREAK SPACE (U+00A0)\<close>
  "isspace c =
     (let n = (of_char c :: nat)
      in (9 \<le> n \<and> n \<le> 13) \<or> (28 \<le> n \<and> n \<le> 32) \<or> n = 133 \<or> n = 160)"

definition isupper_chr :: "char \<Rightarrow> bool" where
  "isupper_chr c = (CHR ''A'' \<le> c \<and> c \<le> CHR ''Z'')"

definition islower_chr :: "char \<Rightarrow> bool" where
  "islower_chr c = (CHR ''a'' \<le> c \<and> c \<le> CHR ''z'')"

definition iscased :: "char \<Rightarrow> bool" where
  "iscased c = (isupper_chr c \<or> islower_chr c)"

definition lower_chr :: "char \<Rightarrow> char" where
  "lower_chr c = (if isupper_chr c then char_of (of_char c + (32::nat)) else c)"

definition upper_chr :: "char \<Rightarrow> char" where
  "upper_chr c = (if islower_chr c then char_of (of_char c - (32::nat)) else c)"

definition lower :: "string \<Rightarrow> string" where
  \<comment> \<open>\<^verbatim>\<open>str.lower()\<close>\<close>
  "lower s = map lower_chr s"

fun title_from :: "bool \<Rightarrow> string \<Rightarrow> string" where
  "title_from prev [] = []"
| "title_from prev (c # cs) =
     (if prev then lower_chr c else upper_chr c) # title_from (iscased c) cs"

definition title :: "string \<Rightarrow> string" where
  \<comment> \<open>\<^verbatim>\<open>str.title()\<close>: a cased character is upper-cased when the character before it
      is not cased, and lower-cased otherwise\<close>
  "title s = title_from False s"

definition lstrip :: "string \<Rightarrow> string" where
  "lstrip s = dropWhile isspace s"

definition rstrip :: "string \<Rightarrow> string" where
  "rstrip s = rev (dropWhile isspace (rev s))"

definition strip :: "string \<Rightarrow> string" where
  \<comment> \<open>\<^verbatim>\<open>str.strip()\<close> without argument\<close>
  "strip s = rstrip (lstrip s)"

fun startswith :: "string \<Rightarrow> string \<Rightarrow> bool" where
  "startswith s [] = True"
| "startswith [] (p # ps) = False"
| "startswith (c # cs) (p # ps) = (c = p \<and> startswith cs ps)"

fun contains :: "string \<Rightarrow> string \<Rightarrow> bool" where
  \<comment> \<open>\<^verbatim>\<open>sub in s\<close> on strings, written \<open>contains s sub\<close>\<close>
  "contains [] sub = (sub = [])"
| "contains (c # cs) sub = (startswith (c # cs) sub \<or> contains cs sub)"

section \<open>Regular expressions: \<^verbatim>\<open>re.findall\<close>\<close>

text \<open>
  The patterns of the program use literals, character sets, the class \<^verbatim>\<open>\s\<close>,
  alternation, greedy \<^verbatim>\<open>*\<close>, \<^verbatim>\<open>+\<close> and \<^verbatim>\<open>?\<close>, non-capturing groups and exactly one
  capturing group. \<^verbatim>\<open>re\<close> matches by backtracking: \<open>run\<close> lists the ways a pattern
  can match at the start of a string, in the order in which the backtracking matcher tries
  them, so the head of the list is the match that \<^verbatim>\<open>re\<close> reports. An entry is the
  rest of the string after the match, with the span of the group when the group took part
  (the string at the start and at the end of the group).
\<close>

datatype citem = Range char char | Single char | Space

datatype regex =
    Eps
  | Lit char
  | In "citem list"
  | Seq regex regex
  | Alt regex regex
  | Star regex
  | Group regex

definition rplus :: "regex \<Rightarrow> regex" where
  \<comment> \<open>greedy \<^verbatim>\<open>r+\<close>\<close>
  "rplus r = Seq r (Star r)"

definition ropt :: "regex \<Rightarrow> regex" where
  \<comment> \<open>greedy \<^verbatim>\<open>r?\<close>\<close>
  "ropt r = Alt r Eps"

definition lit :: "string \<Rightarrow> regex" where
  "lit s = foldr (\<lambda>c r. Seq (Lit c) r) s Eps"

fun alts :: "regex list \<Rightarrow> regex" where
  \<comment> \<open>\<^verbatim>\<open>r1|r2|...\<close>, tried from left to right\<close>
  "alts [] = In []"
| "alts [r] = r"
| "alts (r # rs) = Alt r (alts rs)"

fun lit_match :: "bool \<Rightarrow> char \<Rightarrow> char \<Rightarrow> bool" where
  "lit_match ic l c = (if ic then lower_chr c = lower_chr l else c = l)"

fun in_range :: "char \<Rightarrow> char \<Rightarrow> char \<Rightarrow> bool" where
  "in_range a b c = (a \<le> c \<and> c \<le> b)"

fun item_match :: "bool \<Rightarrow> citem \<Rightarrow> char \<Rightarrow> bool" where
  "item_match ic (Range a b) c =
     (in_range a b c \<or> (ic \<and> (in_range a b (lower_chr c) \<or> in_range a b (upper_chr c))))"
| "item_match ic (Single l) c = lit_match ic l c"
| "item_match ic Space c = isspace c"

type_synonym capture = "(string \<times> string) option"

fun later :: "capture \<Rightarrow> capture \<Rightarrow> capture" where
  "later c1 None = c1"
| "later c1 (Some c2) = Some c2"

fun run :: "bool \<Rightarrow> regex \<Rightarrow> string \<Rightarrow> (capture \<times> string) list" where
  "run ic Eps s = [(None, s)]"
| "run ic (Lit l) s =
     (case s of [] \<Rightarrow> [] | c # cs \<Rightarrow> if lit_match ic l c then [(None, cs)] else [])"
| "run ic (In items) s =
     (case s of [] \<Rightarrow> [] | c # cs \<Rightarrow> if list_ex (\<lambda>i. item_match ic i c) items then [(None, cs)] else [])"
| "run ic (Seq a b) s =
     concat (map (\<lambda>(c1, s1). map (\<lambda>(c2, s2). (later c1 c2, s2)) (run ic b s1)) (run ic a s))"
| "run ic (Alt a b) s = run ic a s @ run ic b s"
| "run ic (Star a) s =
     concat (map (\<lambda>(c1, s1).
        if length s1 < length s
        then map (\<lambda>(c2, s2). (later c1 c2, s2)) (run ic (Star a) s1)
        else []) (run ic a s)) @ [(None, s)]"
| "run ic (Group a) s = map (\<lambda>(c, s1). (Some (s, s1), s1)) (run ic a s)"

fun group_text :: "capture \<Rightarrow> string" where
  \<comment> \<open>the text of group 1; \<^verbatim>\<open>findall\<close> gives the empty string for a group that took no part\<close>
  "group_text None = []"
| "group_text (Some (s, s1)) = take (length s - length s1) s"

text \<open>
  \<open>scan\<close> looks for a match at the current position; without one it moves on by one
  character, with one it reports the group and goes on after the match.
\<close>

function scan :: "bool \<Rightarrow> regex \<Rightarrow> string \<Rightarrow> string list" where
  "scan ic r s =
     (case run ic r s of
        [] \<Rightarrow> (case s of [] \<Rightarrow> [] | c # cs \<Rightarrow> scan ic r cs)
      | (cap, s1) # _ \<Rightarrow>
          group_text cap #
            (if length s1 < length s then scan ic r s1
             else (case s of [] \<Rightarrow> [] | c # cs \<Rightarrow> scan ic r cs)))"
  by pat_completeness auto
termination
  by (relation "measure (\<lambda>(ic, r, s). length s)") auto

definition findall :: "regex \<Rightarrow> string \<Rightarrow> bool \<Rightarrow> string list" where
  \<comment> \<open>\<^verbatim>\<open>re.findall(pattern, text, flags)\<close> for a pattern with one group: the group's text
      of every match, the matches found from left to right without overlap; the flag is
      \<^verbatim>\<open>re.IGNORECASE\<close>\<close>
  "findall pattern text ic = scan ic pattern text"

section \<open>The patterns of the program\<close>

definition upper_set :: regex where
  \<comment> \<open>\<^verbatim>\<open>[A-Z]\<close>\<close>
  "upper_set = In [Range (CHR ''A'') (CHR ''Z'')]"

definition alpha_set :: regex where
  \<comment> \<open>\<^verbatim>\<open>[a-zA-Z]\<close>\<close>
  "alpha_set = In [Range (CHR ''a'') (CHR ''z''), Range (CHR ''A'') (CHR ''Z'')]"

definition ws :: regex where
  \<comment> \<open>\<^verbatim>\<open>\s\<close>\<close>
  "ws = In [Space]"

definition cap_word :: regex where
  \<comment> \<open>\<^verbatim>\<open>[A-Z][a-zA-Z]+\<close>\<close>
  "cap_word = Seq upper_set (rplus alpha_set)"

definition cap_phrase :: regex where
  \<comment> \<open>\<^verbatim>\<open>[A-Z][a-zA-Z]+(?:\s+[A-Z][a-zA-Z]+)*\<close>\<close>
  "cap_phrase = Seq cap_word (Star (Seq (rplus ws) cap_word))"

definition deity_patterns :: "regex list" where
  "deity_patterns =
    [Seq (alts [lit ''Lord'', lit ''Goddess'', lit ''Sri'', lit ''Shri''])
       (Seq (rplus ws) (Group cap_phrase)),
     Seq (Group cap_phrase)
       (Seq (rplus ws) (alts [lit ''Temple'', lit ''Swamy'', lit ''Amman''])),
     Seq (lit ''dedicated to'') (Seq (rplus ws) (Group cap_phrase)),
     Seq (lit ''deity'') (Seq (rplus (In [Single (CHR '':''), Space])) (Group cap_phrase))]"

definition common_deities :: "string list" where
  "common_deities =
    [''Shiva'', ''Vishnu'', ''Krishna'', ''Rama'', ''Jagannath'', ''Venkateswara'',
     ''Balaji'', ''Meenakshi'', ''Parvati'', ''Lakshmi'', ''Saraswati'', ''Ganesha'',
     ''Hanuman'', ''Murugan'', ''Subhadra'', ''Balabhadra'', ''Sundareshwara'']"

definition scripture_patterns :: "regex list" where
  "scripture_patterns =
    [Seq (Group cap_word) (Seq (rplus ws) (lit ''Purana'')),
     Group (alts [lit ''Mahabharata'', lit ''Ramayana'', lit ''Bhagavad Gita'',
                  Seq (lit ''Veda'') (ropt (Lit (CHR ''s'')))]),
     Group (alts [lit ''Skanda Purana'', lit ''Padma Purana'', lit ''Varaha Purana'',
                  lit ''Bhagavata Purana''])]"

definition festival_patterns :: "regex list" where
  "festival_patterns =
    [Seq (Group cap_phrase) (Seq (rplus ws) (lit ''festival'')),
     Seq (lit ''festival'') (Seq (rplus (In [Single (CHR '':''), Space])) (Group cap_phrase)),
     Group (alts [lit ''Brahmotsavam'', lit ''Navaratri'', lit ''Rath Yatra'',
                  lit ''Tirukalyanam''])]"

section \<open>The Text Entity Extractor\<close>

text \<open>
  A Python \<^verbatim>\<open>set\<close> of strings is modelled by a list without duplicates, in the order of
  first insertion. \<^verbatim>\<open>list(s)\<close> enumerates the set in an order that the program does not
  determine; the model returns the elements in insertion order, and the theorems speak
  about the elements of the result only, never about their order.
\<close>

definition set_add :: "'a \<Rightarrow> 'a list \<Rightarrow> 'a list" where
  \<comment> \<open>\<^verbatim>\<open>s.add(x)\<close>\<close>
  "set_add x xs = (if x \<in> set xs then xs else xs @ [x])"

definition extract_deities :: "string \<Rightarrow> string list" where
  "extract_deities text =
    (if text = [] then []
     else
       let deities = fold (\<lambda>pattern acc.
               fold (\<lambda>match acc.
                   if length (strip match) > 2 then set_add (title (strip match)) acc else acc)
                 (findall pattern text True) acc)
             deity_patterns [];
           deities = fold (\<lambda>deity acc.
               if contains (lower text) (lower deity) then set_add deity acc else acc)
             common_deities deities
       in deities)"

definition extract_scriptures :: "string \<Rightarrow> string list" where
  "extract_scriptures text =
    (if text = [] then []
     else fold (\<lambda>pattern acc.
               fold (\<lambda>match acc. set_add (title (strip match)) acc)
                 (findall pattern text True) acc)
             scripture_patterns [])"

definition extract_architectural_style :: "string \<Rightarrow> string list" where
  "extract_architectural_style text =
    (if text = [] then []
     else
       let styles = [];
           styles = (if contains (lower text) ''dravidian'' then styles @ [''Dravidian''] else styles);
           styles = (if contains (lower text) ''kalinga'' then styles @ [''Kalinga''] else styles);
           styles = (if contains (lower text) ''chola'' then styles @ [''Chola''] else styles);
           styles = (if contains (lower text) ''pallava'' then styles @ [''Pallava''] else styles);
           styles = (if contains (lower text) ''vijayanagara'' then styles @ [''Vijayanagara''] else styles)
       in styles)"

definition extract_festivals :: "string \<Rightarrow> string list" where
  "extract_festivals text =
    (if text = [] then []
     else fold (\<lambda>pattern acc.
               fold (\<lambda>match acc.
                   if length (strip match) > 3 then set_add (title (strip match)) acc else acc)
                 (findall pattern text True) acc)
             festival_patterns [])"


section \<open>Documents: parsed JSON\<close>

text \<open>
  The value that \<^verbatim>\<open>json.load\<close> returns. A \<^verbatim>\<open>dict\<close> is an association list in insertion
  order (its keys are distinct in a parsed document); a number is an integer leaf.
\<close>

datatype json =
    JNull
  | JBool bool
  | JNum int
  | JStr string
  | JArr "json list"
  | JObj "(string \<times> json) list"

fun replace_none :: "json \<Rightarrow> json" where
  "replace_none (JObj kvs) = JObj (map (\<lambda>(k, v). (k, replace_none v)) kvs)"
| "replace_none (JArr elems) = JArr (map replace_none elems)"
| "replace_none JNull = JStr []"
| "replace_none (JBool b) = JBool b"
| "replace_none (JNum n) = JNum n"
| "replace_none (JStr s) = JStr s"

datatype error = AttributeError | TypeError | ConstraintError

definition seq :: "error + 'a \<Rightarrow> ('a \<Rightarrow> error + 'b) \<Rightarrow> error + 'b" where
  \<comment> \<open>run the first step; an exception it raises ends the computation\<close>
  "seq m f = (case m of Inl e \<Rightarrow> Inl e | Inr x \<Rightarrow> f x)"

fun truthy :: "json \<Rightarrow> bool" where
  \<comment> \<open>the truth value Python gives a value in \<^verbatim>\<open>if v:\<close>\<close>
  "truthy JNull = False"
| "truthy (JBool b) = b"
| "truthy (JNum n) = (n \<noteq> 0)"
| "truthy (JStr s) = (s \<noteq> [])"
| "truthy (JArr elems) = (elems \<noteq> [])"
| "truthy (JObj kvs) = (kvs \<noteq> [])"

fun get :: "json \<Rightarrow> string \<Rightarrow> json \<Rightarrow> error + json" where
  \<comment> \<open>\<^verbatim>\<open>d.get(key, default)\<close>; only a \<^verbatim>\<open>dict\<close> has the method\<close>
  "get (JObj kvs) key dflt = Inr (case map_of kvs key of None \<Rightarrow> dflt | Some v \<Rightarrow> v)"
| "get _ key dflt = Inl AttributeError"

fun join_strs :: "string \<Rightarrow> string list \<Rightarrow> string" where
  "join_strs sep [] = []"
| "join_strs sep [x] = x"
| "join_strs sep (x # y # ys) = x @ sep @ join_strs sep (y # ys)"

fun the_strs :: "json list \<Rightarrow> string list option" where
  "the_strs [] = Some []"
| "the_strs (JStr s # vs) = map_option ((#) s) (the_strs vs)"
| "the_strs (_ # vs) = None"

definition join :: "string \<Rightarrow> json list \<Rightarrow> error + string" where
  \<comment> \<open>\<^verbatim>\<open>sep.join(items)\<close>: raises \<^verbatim>\<open>TypeError\<close> when an item is no string\<close>
  "join sep items = (case the_strs items of None \<Rightarrow> Inl TypeError | Some xs \<Rightarrow> Inr (join_strs sep xs))"

fun iterate :: "json \<Rightarrow> error + json list" where
  \<comment> \<open>the items that \<^verbatim>\<open>for x in v\<close> visits: the elements of a list, the keys of a
      \<^verbatim>\<open>dict\<close>, the characters of a string; other values are not iterable\<close>
  "iterate (JArr elems) = Inr elems"
| "iterate (JObj kvs) = Inr (map (\<lambda>(k, v). JStr k) kvs)"
| "iterate (JStr s) = Inr (map (\<lambda>c. JStr [c]) s)"
| "iterate _ = Inl TypeError"

section \<open>The graph store\<close>

text \<open>
  The store holds nodes (a label and properties) and directed typed relationships between
  nodes; a node is identified by its position in \<open>nodes\<close>. The uniqueness constraints
  that have been declared are part of the store. The model covers a reachable store that
  accepts any value as a property. The statements it rejects are a \<^verbatim>\<open>CREATE\<close> that breaks
  a declared uniqueness constraint and the declaration of a constraint that the stored
  nodes break; the driver raises an exception for a rejected statement.
\<close>

datatype label = Temple | State | Deity | Scripture | ArchitecturalStyle | Festival

datatype reltype = LOCATED_IN | DEDICATED_TO | MENTIONED_IN | HAS_STYLE | CELEBRATES

record node =
  label :: label
  props :: "(string \<times> json) list"

record graph =
  nodes :: "node list"
  rels :: "(nat \<times> reltype \<times> nat) list"
  constraints :: "label list"

definition has_name :: "label \<Rightarrow> json \<Rightarrow> node \<Rightarrow> bool" where
  \<comment> \<open>the node pattern \<^verbatim>\<open>(:L {name: v})\<close>; a null never equals anything\<close>
  "has_name l v n = (label n = l \<and> v \<noteq> JNull \<and> map_of (props n) ''name'' = Some v)"

definition find_nodes :: "label \<Rightarrow> json \<Rightarrow> graph \<Rightarrow> nat list" where
  "find_nodes l v g = filter (\<lambda>i. has_name l v (nodes g ! i)) [0 ..< length (nodes g)]"

definition stored :: "(string \<times> json) list \<Rightarrow> (string \<times> json) list" where
  \<comment> \<open>a property set to null is not stored\<close>
  "stored ps = filter (\<lambda>(k, v). v \<noteq> JNull) ps"

definition run_clear :: "graph \<Rightarrow> graph" where
  \<comment> \<open>\<^verbatim>\<open>MATCH (n) DETACH DELETE n\<close>\<close>
  "run_clear g = g\<lparr>nodes := [], rels := []\<rparr>"

definition names_unique :: "label \<Rightarrow> graph \<Rightarrow> bool" where
  "names_unique l g =
     distinct (List.map_filter (\<lambda>n. if label n = l then map_of (props n) ''name'' else None) (nodes g))"

definition run_constraint :: "label \<Rightarrow> graph \<Rightarrow> error + graph" where
  \<comment> \<open>\<^verbatim>\<open>CREATE CONSTRAINT ... IF NOT EXISTS FOR (x:L) REQUIRE x.name IS UNIQUE\<close>: rejected
      when the nodes already stored break it\<close>
  "run_constraint l g =
     (if l \<in> set (constraints g) then Inr g
      else if names_unique l g then Inr (g\<lparr>constraints := constraints g @ [l]\<rparr>)
      else Inl ConstraintError)"

definition run_create :: "label \<Rightarrow> (string \<times> json) list \<Rightarrow> graph \<Rightarrow> error + graph" where
  \<comment> \<open>\<^verbatim>\<open>CREATE (x:L {...})\<close>\<close>
  "run_create l ps g =
     (if l \<in> set (constraints g) \<and>
         (case map_of (stored ps) ''name'' of None \<Rightarrow> False | Some v \<Rightarrow> find_nodes l v g \<noteq> [])
      then Inl ConstraintError
      else Inr (g\<lparr>nodes := nodes g @ [\<lparr>label = l, props = stored ps\<rparr>]\<rparr>))"

definition merge_node :: "label \<Rightarrow> json \<Rightarrow> graph \<Rightarrow> nat list \<times> graph" where
  \<comment> \<open>\<^verbatim>\<open>MERGE (x:L {name: v})\<close>: the nodes that match, or else one new node\<close>
  "merge_node l v g =
     (if find_nodes l v g \<noteq> [] then (find_nodes l v g, g)
      else ([length (nodes g)], g\<lparr>nodes := nodes g @ [\<lparr>label = l, props = [(''name'', v)]\<rparr>]\<rparr>))"

definition merge_rel :: "nat \<times> reltype \<times> nat \<Rightarrow> graph \<Rightarrow> graph" where
  \<comment> \<open>\<^verbatim>\<open>MERGE (t)-[:R]->(x)\<close> for bound \<open>t\<close> and \<open>x\<close>\<close>
  "merge_rel r g = (if r \<in> set (rels g) then g else g\<lparr>rels := rels g @ [r]\<rparr>)"

definition run_merge :: "label \<Rightarrow> reltype \<Rightarrow> json \<Rightarrow> json \<Rightarrow> graph \<Rightarrow> graph" where
  \<comment> \<open>\<^verbatim>\<open>MERGE (x:L {name: $v}) WITH x MATCH (t:Temple {name: $temple_name})
      MERGE (t)-[:R]->(x)\<close>\<close>
  "run_merge l r v temple_name g =
     (let (xs, g) = merge_node l v g;
          ts = find_nodes Temple temple_name g
      in fold (\<lambda>x g. fold (\<lambda>t g. merge_rel (t, r, x) g) ts g) xs g)"

section \<open>The program: graph upsert layer and batch loader\<close>

text \<open>
  The methods of \<^verbatim>\<open>TempleGraphDB\<close> that write to the store, as functions from the store
  before to the store after, or to the exception raised. Console output is left out, and
  so is \<^verbatim>\<open>print_statistics\<close>, which only reads.
\<close>

definition clear_database :: "graph \<Rightarrow> graph" where
  "clear_database g = run_clear g"

definition create_constraints :: "graph \<Rightarrow> graph" where
  \<comment> \<open>each statement runs in its own \<^verbatim>\<open>try\<close>: a rejected one is reported and skipped\<close>
  "create_constraints g =
     fold (\<lambda>l g. case run_constraint l g of Inl e \<Rightarrow> g | Inr g' \<Rightarrow> g')
       [Temple, State, Deity, Scripture, ArchitecturalStyle, Festival] g"

definition create_temple_node :: "json \<Rightarrow> graph \<Rightarrow> error + graph" where
  "create_temple_node temple_data g =
     seq (get temple_data ''name'' (JStr [])) (\<lambda>name.
     seq (get temple_data ''state'' (JStr [])) (\<lambda>state.
     seq (get temple_data ''info'' (JStr [])) (\<lambda>info.
     seq (get temple_data ''story'' (JStr [])) (\<lambda>story.
     seq (get temple_data ''visiting_guide'' (JStr [])) (\<lambda>visiting_guide.
     seq (get temple_data ''architecture'' (JStr [])) (\<lambda>architecture.
     seq (get temple_data ''mention_in_scripture'' (JStr [])) (\<lambda>scripture_mentions.
       run_create Temple
         [(''name'', name), (''state'', state), (''info'', info), (''story'', story),
          (''visiting_guide'', visiting_guide), (''architecture'', architecture),
          (''scripture_mentions'', scripture_mentions)] g)))))))"

definition all_text :: "json \<Rightarrow> error + string" where
  \<comment> \<open>the local \<^verbatim>\<open>all_text\<close> of \<^verbatim>\<open>create_relationships\<close>\<close>
  "all_text temple_data =
     seq (get temple_data ''info'' (JStr [])) (\<lambda>info.
     seq (get temple_data ''story'' (JStr [])) (\<lambda>story.
     seq (get temple_data ''architecture'' (JStr [])) (\<lambda>architecture.
     seq (get temple_data ''mention_in_scripture'' (JStr [])) (\<lambda>mention.
       join '' '' [info, story, architecture, mention]))))"

definition relate :: "json \<Rightarrow> json \<Rightarrow> string \<Rightarrow> graph \<Rightarrow> graph" where
  \<comment> \<open>the body of the \<^verbatim>\<open>with\<close> block of \<^verbatim>\<open>create_relationships\<close>\<close>
  "relate temple_name state_name text g =
     (let g = (if truthy state_name then run_merge State LOCATED_IN state_name temple_name g else g);
          deities = extract_deities text;
          g = fold (\<lambda>deity. run_merge Deity DEDICATED_TO (JStr deity) temple_name) deities g;
          scriptures = extract_scriptures text;
          g = fold (\<lambda>scripture. run_merge Scripture MENTIONED_IN (JStr scripture) temple_name) scriptures g;
          styles = extract_architectural_style text;
          g = fold (\<lambda>style. run_merge ArchitecturalStyle HAS_STYLE (JStr style) temple_name) styles g;
          festivals = extract_festivals text;
          g = fold (\<lambda>festival. run_merge Festival CELEBRATES (JStr festival) temple_name) festivals g
      in g)"

definition create_relationships :: "json \<Rightarrow> graph \<Rightarrow> error + graph" where
  "create_relationships temple_data g =
     seq (get temple_data ''name'' (JStr [])) (\<lambda>temple_name.
     seq (get temple_data ''state'' (JStr [])) (\<lambda>state_name.
     seq (all_text temple_data) (\<lambda>text.
       Inr (relate temple_name state_name text g))))"

text \<open>
  The loader catches every exception: the run ends there, and the store stays as the
  statements before the exception left it. The result is the exception, if any, and the
  store.
\<close>

fun load_temples :: "json list \<Rightarrow> graph \<Rightarrow> error option \<times> graph" where
  \<comment> \<open>\<^verbatim>\<open>for temple in temples\<close>\<close>
  "load_temples [] g = (None, g)"
| "load_temples (temple # rest) g =
     (case create_temple_node temple g of
        Inl e \<Rightarrow> (Some e, g)
      | Inr g1 \<Rightarrow>
          (case create_relationships temple g1 of
             Inl e \<Rightarrow> (Some e, g1)
           | Inr g2 \<Rightarrow> load_temples rest g2))"

fun load_states :: "(string \<times> json) list \<Rightarrow> graph \<Rightarrow> error option \<times> graph" where
  \<comment> \<open>\<^verbatim>\<open>for state, temples in data.items()\<close>\<close>
  "load_states [] g = (None, g)"
| "load_states ((state, temples) # rest) g =
     (case iterate temples of
        Inl e \<Rightarrow> (Some e, g)
      | Inr ts \<Rightarrow>
          (case load_temples ts g of
             (Some e, g1) \<Rightarrow> (Some e, g1)
           | (None, g1) \<Rightarrow> load_states rest g1))"

definition load_temple_data :: "json \<Rightarrow> graph \<Rightarrow> error option \<times> graph" where
  \<comment> \<open>the document is the value that \<^verbatim>\<open>json.load\<close> returned\<close>
  "load_temple_data data g =
     (let data = replace_none data;
          g = clear_database g;
          g = create_constraints g
      in case data of
           JObj kvs \<Rightarrow> load_states kvs g
         | _ \<Rightarrow> (Some AttributeError, g))"

definition count_nodes :: "label \<Rightarrow> graph \<Rightarrow> nat" where
  \<comment> \<open>\<^verbatim>\<open>MATCH (x:L) RETURN count(x)\<close>\<close>
  "count_nodes l g = length (filter (\<lambda>n. label n = l) (nodes g))"

definition count_rels :: "graph \<Rightarrow> nat" where
  \<comment> \<open>\<^verbatim>\<open>MATCH ()-[r]->() RETURN count(r)\<close>\<close>
  "count_rels g = length (rels g)"


section \<open>Notions used in the statements\<close>

text \<open>
  What the specification says of the null-normalization pass, as a relation between a
  document and its normalized form: a null becomes the empty string; a list keeps its
  length and order; a mapping keeps its keys and their order; every other value stays.
\<close>

inductive nulls_replaced :: "json \<Rightarrow> json \<Rightarrow> bool" where
  null: "nulls_replaced JNull (JStr [])"
| bool: "nulls_replaced (JBool b) (JBool b)"
| num: "nulls_replaced (JNum n) (JNum n)"
| str: "nulls_replaced (JStr s) (JStr s)"
| arr: "list_all2 nulls_replaced elems elems' \<Longrightarrow> nulls_replaced (JArr elems) (JArr elems')"
| obj: "map fst kvs = map fst kvs' \<Longrightarrow> list_all2 nulls_replaced (map snd kvs) (map snd kvs')
        \<Longrightarrow> nulls_replaced (JObj kvs) (JObj kvs')"

text \<open>No null occurs anywhere in the document.\<close>

fun null_free :: "json \<Rightarrow> bool" where
  "null_free JNull = False"
| "null_free (JArr elems) = list_all null_free elems"
| "null_free (JObj kvs) = list_all (\<lambda>(k, v). null_free v) kvs"
| "null_free _ = True"


text \<open>
  Two syntactic checks on a pattern: every match of it takes at least one character, and
  every starred part of it does. The scan of \<open>findall\<close> and the repetition of \<open>run\<close>
  go on only after a step that took a character; for patterns that pass the checks this
  is every step, as it is in \<^verbatim>\<open>re\<close>.
\<close>

fun consumes :: "regex \<Rightarrow> bool" where
  "consumes Eps = False"
| "consumes (Lit l) = True"
| "consumes (In items) = True"
| "consumes (Seq a b) = (consumes a \<or> consumes b)"
| "consumes (Alt a b) = (consumes a \<and> consumes b)"
| "consumes (Star a) = False"
| "consumes (Group a) = consumes a"

fun stars_consume :: "regex \<Rightarrow> bool" where
  "stars_consume (Seq a b) = (stars_consume a \<and> stars_consume b)"
| "stars_consume (Alt a b) = (stars_consume a \<and> stars_consume b)"
| "stars_consume (Star a) = (consumes a \<and> stars_consume a)"
| "stars_consume (Group a) = stars_consume a"
| "stars_consume _ = True"

text \<open>The names that the nodes of a label carry.\<close>

definition node_names :: "label \<Rightarrow> graph \<Rightarrow> json set" where
  "node_names l g =
     set (List.map_filter (\<lambda>n. if label n = l then map_of (props n) ''name'' else None) (nodes g))"




section \<open>Evaluating characters\<close>

text \<open>
  The character operations, stated on the eight bits of a character, so that they
  evaluate by rewriting alone.
\<close>

declare scan.simps [simp del]

lemma isupper_chr_bits [code]:
  "isupper_chr (Char b0 b1 b2 b3 b4 b5 b6 b7) \<longleftrightarrow>
     \<not> b7 \<and> b6 \<and> \<not> b5 \<and> (b0 \<or> b1 \<or> b2 \<or> b3 \<or> b4) \<and> \<not> (b4 \<and> b3 \<and> (b2 \<or> (b1 \<and> b0)))"
  by (cases b0; cases b1; cases b2; cases b3; cases b4; cases b5; cases b6; cases b7;
      simp add: isupper_chr_def less_eq_char_def)

lemma islower_chr_bits [code]:
  "islower_chr (Char b0 b1 b2 b3 b4 b5 b6 b7) \<longleftrightarrow>
     \<not> b7 \<and> b6 \<and> b5 \<and> (b0 \<or> b1 \<or> b2 \<or> b3 \<or> b4) \<and> \<not> (b4 \<and> b3 \<and> (b2 \<or> (b1 \<and> b0)))"
  by (cases b0; cases b1; cases b2; cases b3; cases b4; cases b5; cases b6; cases b7;
      simp add: islower_chr_def less_eq_char_def)

lemma lower_chr_bits [code]:
  "lower_chr (Char b0 b1 b2 b3 b4 b5 b6 b7) =
     (if isupper_chr (Char b0 b1 b2 b3 b4 b5 b6 b7) then Char b0 b1 b2 b3 b4 True b6 b7
      else Char b0 b1 b2 b3 b4 b5 b6 b7)"
  by (cases b0; cases b1; cases b2; cases b3; cases b4; cases b5; cases b6; cases b7;
      simp add: lower_chr_def isupper_chr_def less_eq_char_def char_of_def bit_Suc_0_iff)

lemma upper_chr_bits [code]:
  "upper_chr (Char b0 b1 b2 b3 b4 b5 b6 b7) =
     (if islower_chr (Char b0 b1 b2 b3 b4 b5 b6 b7) then Char b0 b1 b2 b3 b4 False b6 b7
      else Char b0 b1 b2 b3 b4 b5 b6 b7)"
  by (cases b0; cases b1; cases b2; cases b3; cases b4; cases b5; cases b6; cases b7;
      simp add: upper_chr_def islower_chr_def less_eq_char_def char_of_def bit_Suc_0_iff)

lemma isspace_bits [code]:
  "isspace (Char b0 b1 b2 b3 b4 b5 b6 b7) \<longleftrightarrow>
     \<not> b6 \<and>
     (if b7
      then (if b5 then \<not> b0 \<and> \<not> b1 \<and> \<not> b2 \<and> \<not> b3 \<and> \<not> b4
            else b0 \<and> \<not> b1 \<and> b2 \<and> \<not> b3 \<and> \<not> b4)
      else if b5 then \<not> b0 \<and> \<not> b1 \<and> \<not> b2 \<and> \<not> b3 \<and> \<not> b4
      else if b4 then b3 \<and> b2
      else b3 \<and> (if b2 then \<not> b1 else b0 \<or> b1))"
  by (cases b0; cases b1; cases b2; cases b3; cases b4; cases b5; cases b6; cases b7;
      simp add: isspace_def)

lemma in_range_code [code]:
  "in_range (CHR ''A'') (CHR ''Z'') c = isupper_chr c"
  "in_range (CHR ''a'') (CHR ''z'') c = islower_chr c"
  by (simp_all add: isupper_chr_def islower_chr_def)

section \<open>Facts about the string operations\<close>

lemma isspace_lower_chr: "isspace (lower_chr c) = isspace c"
  by (cases c) (auto simp: lower_chr_bits isupper_chr_bits isspace_bits)

lemma isspace_upper_chr: "isspace (upper_chr c) = isspace c"
  by (cases c) (auto simp: upper_chr_bits islower_chr_bits isspace_bits)

lemma title_from_spaces:
  "list_all2 (\<lambda>a b. isspace a = isspace b) (title_from p s) s"
  by (induction s arbitrary: p) (simp_all add: isspace_lower_chr isspace_upper_chr)

lemma dropWhile_spaces:
  "list_all2 (\<lambda>a b. P a = P b) xs ys \<Longrightarrow>
   list_all2 (\<lambda>a b. P a = P b) (dropWhile P xs) (dropWhile P ys)"
  by (induction xs ys rule: list_all2_induct) simp_all

lemma strip_spaces:
  assumes "list_all2 (\<lambda>a b. isspace a = isspace b) xs ys"
  shows "list_all2 (\<lambda>a b. isspace a = isspace b) (strip xs) (strip ys)"
  unfolding strip_def rstrip_def lstrip_def
  using assms by (intro dropWhile_spaces list_all2_rev1[THEN iffD2] ) (simp add: dropWhile_spaces)


lemma rstrip_prefix: "\<exists>zs. s = rstrip s @ zs"
proof -
  have "rev s = takeWhile isspace (rev s) @ dropWhile isspace (rev s)" by simp
  then have "s = rev (dropWhile isspace (rev s)) @ rev (takeWhile isspace (rev s))"
    by (metis rev_append rev_rev_ident)
  then show ?thesis unfolding rstrip_def by blast
qed

lemma lstrip_rstrip_lstrip: "lstrip (rstrip (lstrip s)) = rstrip (lstrip s)"
proof (cases "rstrip (lstrip s)")
  case Nil
  then show ?thesis by (simp add: lstrip_def)
next
  case (Cons c cs)
  obtain zs where z: "lstrip s = rstrip (lstrip s) @ zs" using rstrip_prefix by blast
  then have "hd (lstrip s) = c" using Cons by (metis append_Cons list.sel(1))
  moreover have "lstrip s \<noteq> []" using z Cons by auto
  ultimately have "\<not> isspace c" unfolding lstrip_def using hd_dropWhile by metis
  then show ?thesis using Cons by (simp add: lstrip_def)
qed

lemma rstrip_idem: "rstrip (rstrip s) = rstrip s"
  by (simp add: rstrip_def)

lemma strip_idem: "strip (strip s) = strip s"
  by (simp add: strip_def lstrip_rstrip_lstrip rstrip_idem)

lemma length_strip_title: "length (strip (title (strip m))) = length (strip m)"
proof -
  have "list_all2 (\<lambda>a b. isspace a = isspace b) (strip (title (strip m))) (strip (strip m))"
    unfolding title_def by (rule strip_spaces) (rule title_from_spaces)
  then show ?thesis by (simp add: strip_idem list_all2_lengthD)
qed

section \<open>Facts about the matcher\<close>

lemma run_shorter:
  "(c, s1) \<in> set (run ic r s) \<Longrightarrow>
   length s1 \<le> length s \<and> (consumes r \<longrightarrow> length s1 < length s)"
proof (induction ic r s arbitrary: c s1 rule: run.induct)
  case (1 ic s)
  then show ?case by simp
next
  case (2 ic l s)
  then show ?case by (cases s) (simp_all split: if_splits)
next
  case (3 ic items s)
  then show ?case by (cases s) (simp_all split: if_splits)
next
  case (4 ic a b s)
  have "run ic (Seq a b) s =
     concat (map (\<lambda>(c1, s1). map (\<lambda>(c2, s2). (later c1 c2, s2)) (run ic b s1)) (run ic a s))"
    by (rule run.simps)
  with "4.prems" obtain ca sa cb where a: "(ca, sa) \<in> set (run ic a s)"
    and b: "(cb, s1) \<in> set (run ic b sa)"
    by (auto simp del: run.simps)
  from "4.IH"(1) [OF a] "4.IH"(2) [OF a refl b] show ?case by auto
next
  case (5 ic a b s)
  have "run ic (Alt a b) s = run ic a s @ run ic b s" by (rule run.simps)
  with 5 show ?case by (auto simp del: run.simps)
next
  case (6 ic a s)
  have "run ic (Star a) s =
     concat (map (\<lambda>(c1, s1).
        if length s1 < length s
        then map (\<lambda>(c2, s2). (later c1 c2, s2)) (run ic (Star a) s1)
        else []) (run ic a s)) @ [(None, s)]"
    by (rule run.simps)
  with "6.prems" consider "s1 = s"
    | ca sa cb where "(ca, sa) \<in> set (run ic a s)" "length sa < length s"
        "(cb, s1) \<in> set (run ic (Star a) sa)"
    by (auto simp del: run.simps split: if_splits)
  then show ?case
  proof cases
    case 1
    then show ?thesis by simp
  next
    case 2
    from "6.IH"(2) [OF 2(1) refl 2(2) 2(3)] 2(2) show ?thesis by simp
  qed
next
  case (7 ic a s)
  have "run ic (Group a) s = map (\<lambda>(c, s1). (Some (s, s1), s1)) (run ic a s)" by (rule run.simps)
  with 7 show ?case by (auto simp del: run.simps)
qed

lemma patterns_consume:
  "list_all (\<lambda>p. consumes p \<and> stars_consume p)
     (deity_patterns @ scripture_patterns @ festival_patterns)"
  by (simp add: deity_patterns_def scripture_patterns_def festival_patterns_def cap_phrase_def
      cap_word_def rplus_def ropt_def ws_def alpha_set_def upper_set_def lit_def)

lemma scan_consuming:
  assumes "consumes r"
  shows "scan ic r s =
     (case run ic r s of
        [] \<Rightarrow> (case s of [] \<Rightarrow> [] | c # cs \<Rightarrow> scan ic r cs)
      | (cap, s1) # _ \<Rightarrow> group_text cap # scan ic r s1)"
proof (cases "run ic r s")
  case Nil
  then show ?thesis by (subst scan.simps) simp
next
  case (Cons o1 os)
  obtain cap s1 where o1: "o1 = (cap, s1)" by (cases o1)
  then have "(cap, s1) \<in> set (run ic r s)" using Cons by simp
  then have "length s1 < length s" using run_shorter assms by blast
  then show ?thesis using Cons o1 by (subst scan.simps) simp
qed

section \<open>The elements that the extractors return\<close>

lemma set_set_add: "set (set_add x xs) = insert x (set xs)"
  by (auto simp: set_add_def)

lemma distinct_set_add: "distinct xs \<Longrightarrow> distinct (set_add x xs)"
  by (simp add: set_add_def)

lemma set_fold_add:
  "set (fold (\<lambda>m acc. if P m then set_add (f m) acc else acc) ms acc) =
   set acc \<union> f ` {m \<in> set ms. P m}"
  by (induction ms arbitrary: acc) (auto simp: set_set_add)

lemma set_fold_patterns:
  "set (fold (\<lambda>pattern acc. fold (\<lambda>m acc. if P m then set_add (f m) acc else acc)
        (F pattern) acc) ps acc) =
   set acc \<union> f ` {m. \<exists>p \<in> set ps. m \<in> set (F p) \<and> P m}"
  by (induction ps arbitrary: acc) (auto simp: set_fold_add)

lemma set_extract_deities:
  "set (extract_deities text) =
     (if text = [] then {}
      else (\<lambda>m. title (strip m)) `
             {m. \<exists>p \<in> set deity_patterns. m \<in> set (findall p text True) \<and> 2 < length (strip m)}
           \<union> {d \<in> set common_deities. contains (lower text) (lower d)})"
proof -
  have g: "set (fold (\<lambda>deity acc. if contains (lower text) (lower deity) then set_add deity acc else acc)
             ds acc) = set acc \<union> {d \<in> set ds. contains (lower text) (lower d)}" for ds acc
    using set_fold_add [of "\<lambda>d. contains (lower text) (lower d)" "\<lambda>d. d" ds acc] by auto
  show ?thesis
    unfolding extract_deities_def Let_def
    by (simp add: g set_fold_patterns [where P = "\<lambda>m. 2 < length (strip m)"])
qed

lemma set_extract_scriptures:
  "set (extract_scriptures text) =
     (if text = [] then {}
      else (\<lambda>m. title (strip m)) `
             {m. \<exists>p \<in> set scripture_patterns. m \<in> set (findall p text True)})"
  unfolding extract_scriptures_def
  using set_fold_patterns [of "\<lambda>m. True" "\<lambda>m. title (strip m)" "\<lambda>p. findall p text True" scripture_patterns "[]"]
  by simp

lemma startswith_iff: "startswith s p \<longleftrightarrow> (\<exists>zs. s = p @ zs)"
  by (induction s p rule: startswith.induct) auto

lemma contains_iff: "contains s sub \<longleftrightarrow> (\<exists>pre post. s = pre @ sub @ post)"
proof (induction s)
  case Nil
  then show ?case by auto
next
  case (Cons c cs)
  show ?case
  proof
    assume "contains (c # cs) sub"
    then consider "startswith (c # cs) sub" | "contains cs sub" by auto
    then show "\<exists>pre post. c # cs = pre @ sub @ post"
    proof cases
      case 1
      then obtain zs where "c # cs = sub @ zs" using startswith_iff by blast
      then have "c # cs = [] @ sub @ zs" by simp
      then show ?thesis by blast
    next
      case 2
      then obtain pre post where "cs = pre @ sub @ post" using Cons.IH by blast
      then have "c # cs = (c # pre) @ sub @ post" by simp
      then show ?thesis by blast
    qed
  next
    assume "\<exists>pre post. c # cs = pre @ sub @ post"
    then obtain pre post where e: "c # cs = pre @ sub @ post" by blast
    show "contains (c # cs) sub"
    proof (cases pre)
      case Nil
      then have "startswith (c # cs) sub" using e startswith_iff by auto
      then show ?thesis by simp
    next
      case (Cons a pre')
      then have "cs = pre' @ sub @ post" using e by simp
      then have "contains cs sub" using Cons.IH by blast
      then show ?thesis by simp
    qed
  qed
qed

section \<open>Properties of the Text Entity Extractor\<close>

text \<open>
  C1. On the empty text each of the four extraction operations returns the empty
  collection. The operations are total functions of the text: no step of their bodies can
  raise on a string.
\<close>
theorem C1_empty_text:
  "extract_deities '''' = [] \<and> extract_scriptures '''' = [] \<and>
   extract_architectural_style '''' = [] \<and> extract_festivals '''' = []"
  by (simp add: extract_deities_def extract_scriptures_def extract_architectural_style_def
      extract_festivals_def)

lemma lower_vocabulary:
  "lower ''Dravidian'' = ''dravidian''" "lower ''Kalinga'' = ''kalinga''"
  "lower ''Chola'' = ''chola''" "lower ''Pallava'' = ''pallava''"
  "lower ''Vijayanagara'' = ''vijayanagara''"
  by (simp_all add: lower_def lower_chr_bits isupper_chr_bits)

text \<open>
  C2. \<open>extract_architectural_style\<close> returns the names of the fixed five-name vocabulary
  whose lower-cased form occurs in the lower-cased text: in the order of the vocabulary,
  each at most once, in the canonical spelling, and nothing else.
\<close>
theorem C2_style_vocabulary:
  "extract_architectural_style text =
     filter (\<lambda>style. contains (lower text) (lower style))
       [''Dravidian'', ''Kalinga'', ''Chola'', ''Pallava'', ''Vijayanagara'']
   \<and> set (extract_architectural_style text) \<subseteq>
       set [''Dravidian'', ''Kalinga'', ''Chola'', ''Pallava'', ''Vijayanagara'']
   \<and> distinct (extract_architectural_style text)"
proof -
  have eq: "extract_architectural_style text =
     filter (\<lambda>style. contains (lower text) (lower style))
       [''Dravidian'', ''Kalinga'', ''Chola'', ''Pallava'', ''Vijayanagara'']"
  proof (cases "text = []")
    case True
    then show ?thesis by (simp add: extract_architectural_style_def lower_def)
  next
    case False
    then show ?thesis
      by (simp add: extract_architectural_style_def Let_def lower_vocabulary)
  qed
  have d: "distinct [''Dravidian'', ''Kalinga'', ''Chola'', ''Pallava'', ''Vijayanagara'']"
    by simp
  show ?thesis
    unfolding eq using d by (auto intro: distinct_filter)
qed

lemma common_deities_strip:
  "d \<in> set common_deities \<Longrightarrow> 2 < length (strip d)"
  unfolding common_deities_def
  by (auto simp: strip_def lstrip_def rstrip_def isspace_bits)

text \<open>
  C6. Every name that \<open>extract_deities\<close> returns has more than two characters after
  trimming.
\<close>
theorem C6_deity_min_length:
  "\<forall>name \<in> set (extract_deities text). 2 < length (strip name)"
  by (auto simp: set_extract_deities length_strip_title common_deities_strip split: if_splits)

text \<open>
  The text \<^verbatim>\<open>Lord Om, Lord Rama\<close>: the match \<^verbatim>\<open>Om\<close> is discarded, \<^verbatim>\<open>Rama\<close> is kept.
\<close>
theorem C6_deity_min_length_witness:
  "extract_deities ''Lord Om, Lord Rama'' = [''Rama''] \<and> 2 < length (strip ''Rama'')"
proof -
  have e: "extract_deities ''Lord Om, Lord Rama'' = [''Rama'']" by code_simp
  then have "''Rama'' \<in> set (extract_deities ''Lord Om, Lord Rama'')" by simp
  with C6_deity_min_length [of "''Lord Om, Lord Rama''"] have "2 < length (strip ''Rama'')"
    by blast
  with e show ?thesis by simp
qed

lemma common_deities_nonempty: "d \<in> set common_deities \<Longrightarrow> lower d \<noteq> []"
  unfolding common_deities_def by (auto simp: lower_def)

text \<open>
  C10. A name of the gazetteer whose lower-cased form occurs anywhere in the lower-cased
  text, also inside a longer word, is in the result of \<open>extract_deities\<close>: there is no
  word-boundary check and no length filter on gazetteer hits.
\<close>
theorem C10_gazetteer_substring:
  assumes "d \<in> set common_deities" and "lower text = pre @ lower d @ post"
  shows "d \<in> set (extract_deities text)"
proof -
  have "lower text \<noteq> []" using assms common_deities_nonempty by auto
  then have "text \<noteq> []" by (auto simp: lower_def)
  moreover have "contains (lower text) (lower d)" using assms(2) contains_iff by blast
  ultimately show ?thesis using assms(1) by (simp add: set_extract_deities)
qed

text \<open>
  The text \<^verbatim>\<open>Ramayana\<close> contains \<^verbatim>\<open>rama\<close>, so \<^verbatim>\<open>Rama\<close> is returned.
\<close>
theorem C10_gazetteer_substring_witness:
  "''Rama'' \<in> set common_deities \<and> lower ''Ramayana'' = [] @ lower ''Rama'' @ ''yana'' \<and>
   ''Rama'' \<in> set (extract_deities ''Ramayana'')"
proof -
  have a: "''Rama'' \<in> set common_deities" by (simp add: common_deities_def)
  have b: "lower ''Ramayana'' = [] @ lower ''Rama'' @ ''yana''"
    by (simp add: lower_def lower_chr_bits isupper_chr_bits)
  from C10_gazetteer_substring [OF a b] a b show ?thesis by blast
qed

text \<open>
  C3. On the example sentence of the specification, \<open>extract_deities\<close> returns a
  collection that contains \<^verbatim>\<open>Venkateswara\<close>, \<open>extract_architectural_style\<close> returns
  exactly \<^verbatim>\<open>Dravidian\<close>, and \<open>extract_scriptures\<close> returns a collection that contains
  \<^verbatim>\<open>Skanda Purana\<close>.
\<close>
theorem C3_example:
  "''Venkateswara'' \<in> set (extract_deities
      ''This temple is dedicated to Lord Venkateswara and follows Dravidian architecture, described in the Skanda Purana.'')
   \<and> extract_architectural_style
      ''This temple is dedicated to Lord Venkateswara and follows Dravidian architecture, described in the Skanda Purana.''
      = [''Dravidian'']
   \<and> ''Skanda Purana'' \<in> set (extract_scriptures
      ''This temple is dedicated to Lord Venkateswara and follows Dravidian architecture, described in the Skanda Purana.'')"
proof -
  let ?t = "''This temple is dedicated to Lord Venkateswara and follows Dravidian architecture, described in the Skanda Purana.''"
  have "''Venkateswara'' \<in> set common_deities" by (simp add: common_deities_def)
  moreover have "contains (lower ?t) (lower ''Venkateswara'')" by code_simp
  ultimately have d: "''Venkateswara'' \<in> set (extract_deities ?t)"
    by (simp add: set_extract_deities)
  have a: "extract_architectural_style ?t = [''Dravidian'']" by code_simp
  have s: "extract_scriptures ?t = [''Skanda'', ''Skanda Purana'']" by code_simp
  from d a s show ?thesis by simp
qed

text \<open>
  C9. The text \<^verbatim>\<open>dedicated to shiva kumar\<close> has no upper-case letter. Without the
  case-insensitive flag no deity pattern matches it; with the flag, as the program calls
  \<^verbatim>\<open>re.findall\<close>, the third pattern captures \<^verbatim>\<open>shiva kumar\<close>, which is returned
  title-cased, so the result is not empty.
\<close>
theorem C9_lowercase_match:
  "list_all (\<lambda>c. \<not> isupper_chr c) ''dedicated to shiva kumar''
   \<and> map (\<lambda>p. findall p ''dedicated to shiva kumar'' False) deity_patterns = [[], [], [], []]
   \<and> map (\<lambda>p. findall p ''dedicated to shiva kumar'' True) deity_patterns
       = [[], [], [''shiva kumar''], []]
   \<and> set (extract_deities ''dedicated to shiva kumar'') = {''Shiva Kumar'', ''Shiva''}
   \<and> extract_deities ''dedicated to shiva kumar'' \<noteq> []"
proof -
  have 1: "list_all (\<lambda>c. \<not> isupper_chr c) ''dedicated to shiva kumar''" by code_simp
  have 2: "map (\<lambda>p. findall p ''dedicated to shiva kumar'' False) deity_patterns = [[], [], [], []]"
    by code_simp
  have 3: "map (\<lambda>p. findall p ''dedicated to shiva kumar'' True) deity_patterns
       = [[], [], [''shiva kumar''], []]"
    by code_simp
  have 4: "extract_deities ''dedicated to shiva kumar'' = [''Shiva Kumar'', ''Shiva'']"
    by code_simp
  from 1 2 3 4 show ?thesis by auto
qed

section \<open>The null-normalization pass\<close>

lemma list_all2_eq_map:
  "list_all2 (\<lambda>x y. y = f x) xs ys \<Longrightarrow> ys = map f xs"
  by (induction xs ys rule: list_all2_induct) simp_all

lemma pairs_eq_map:
  "map fst kvs = map fst kvs' \<Longrightarrow> map snd kvs' = map f (map snd kvs) \<Longrightarrow>
   kvs' = map (\<lambda>(k, v). (k, f v)) kvs"
proof (induction kvs arbitrary: kvs')
  case Nil
  then show ?case by simp
next
  case (Cons kv kvs)
  then obtain kv' rest where "kvs' = kv' # rest" by (cases kvs') auto
  with Cons show ?case by (cases kv; cases kv') auto
qed

lemma list_all2_map_self:
  "(\<And>v. v \<in> set vs \<Longrightarrow> R v (f v)) \<Longrightarrow> list_all2 R vs (map f vs)"
  by (induction vs) simp_all

lemma nulls_replaced_unique: "nulls_replaced d d' \<Longrightarrow> d' = replace_none d"
proof (induction rule: nulls_replaced.induct)
  case (arr elems elems')
  then have "list_all2 (\<lambda>x y. y = replace_none x) elems elems'"
    by (auto elim: list_all2_mono)
  then show ?case using list_all2_eq_map by auto
next
  case (obj kvs kvs')
  then have "list_all2 (\<lambda>x y. y = replace_none x) (map snd kvs) (map snd kvs')"
    by (auto elim: list_all2_mono)
  then have "map snd kvs' = map replace_none (map snd kvs)" by (rule list_all2_eq_map)
  with obj(1) show ?case using pairs_eq_map by auto
qed simp_all

lemma nulls_replaced_replace_none: "nulls_replaced d (replace_none d)"
proof (induction d)
  case (JArr elems)
  then have "list_all2 nulls_replaced elems (map replace_none elems)"
    by (rule list_all2_map_self)
  then show ?case by (simp add: nulls_replaced.arr)
next
  case (JObj kvs)
  have "v \<in> set (map snd kvs) \<Longrightarrow> nulls_replaced v (replace_none v)" for v
    using JObj by (auto simp: snds.simps)
  then have "list_all2 nulls_replaced (map snd kvs) (map replace_none (map snd kvs))"
    by (rule list_all2_map_self)
  moreover have "map snd (map (\<lambda>(k, v). (k, replace_none v)) kvs) = map replace_none (map snd kvs)"
    by (induction kvs) auto
  moreover have "map fst kvs = map fst (map (\<lambda>(k, v). (k, replace_none v)) kvs)"
    by (induction kvs) auto
  ultimately show ?case by (simp add: nulls_replaced.obj del: map_map)
qed (simp_all add: nulls_replaced.intros)

lemma null_free_replace_none: "null_free (replace_none d)"
proof (induction d)
  case (JObj kvs)
  then show ?case by (auto simp: list_all_iff snds.simps)
qed (simp_all add: list_all_iff)

lemma replace_none_null_free: "null_free d \<Longrightarrow> replace_none d = d"
proof (induction d)
  case (JArr elems)
  then show ?case by (simp add: list_all_iff map_idI)
next
  case (JObj kvs)
  then have "\<And>kv. kv \<in> set kvs \<Longrightarrow> (\<lambda>(k, v). (k, replace_none v)) kv = kv"
    by (auto simp: list_all_iff snds.simps)
  then show ?case by (simp add: map_idI)
qed simp_all

text \<open>
  C4. \<open>replace_none\<close> replaces every null, at any depth inside mappings and lists, by the
  empty string and leaves every other value, the keys and their order, and the lengths and
  order of lists unchanged: its result is the one document that the relation
  \<open>nulls_replaced\<close> allows. No null is left, and a document without null is returned as
  it is.
\<close>

theorem C4_replace_none:
  "(nulls_replaced d d' \<longleftrightarrow> d' = replace_none d)
   \<and> null_free (replace_none d)
   \<and> (null_free d \<longrightarrow> replace_none d = d)"
  using nulls_replaced_unique nulls_replaced_replace_none null_free_replace_none
    replace_none_null_free by blast

text \<open>
  A document without null is unchanged; in a document with nulls at three depths each
  becomes the empty string.
\<close>

theorem C4_replace_none_witness:
  "null_free (JObj [(''Odisha'', JArr [JObj [(''name'', JStr ''Jagannath Temple''), (''rank'', JNum 1)]])])
   \<and> replace_none (JObj [(''Odisha'', JArr [JObj [(''name'', JStr ''Jagannath Temple''), (''rank'', JNum 1)]])])
     = JObj [(''Odisha'', JArr [JObj [(''name'', JStr ''Jagannath Temple''), (''rank'', JNum 1)]])]
   \<and> replace_none (JObj [(''Odisha'', JArr [JObj [(''name'', JStr ''Jagannath Temple''),
         (''state'', JNull), (''tags'', JArr [JNull, JBool True])]]), (''Goa'', JNull)])
     = JObj [(''Odisha'', JArr [JObj [(''name'', JStr ''Jagannath Temple''),
         (''state'', JStr []), (''tags'', JArr [JStr [], JBool True])]]), (''Goa'', JStr [])]"
proof -
  let ?d = "JObj [(''Odisha'', JArr [JObj [(''name'', JStr ''Jagannath Temple''), (''rank'', JNum 1)]])]"
  have n: "null_free ?d" by simp
  with C4_replace_none [of ?d ?d] have "replace_none ?d = ?d" by blast
  with n show ?thesis by simp
qed


section \<open>The batch loader\<close>

lemma merge_rel_constraints: "constraints (merge_rel r g) = constraints g"
  by (simp add: merge_rel_def)

lemma merge_rel_nodes: "nodes (merge_rel r g) = nodes g"
  by (simp add: merge_rel_def)

lemma fold_keeps:
  "(\<And>x g. F (h x g) = F g) \<Longrightarrow> F (fold h xs g) = F g"
  by (induction xs arbitrary: g) simp_all

lemma run_merge_constraints: "constraints (run_merge l r v tn g) = constraints g"
  by (simp add: run_merge_def merge_node_def Let_def fold_keeps merge_rel_constraints)

lemma fold_run_merge_constraints:
  "constraints (fold (\<lambda>x. run_merge l r (f x) tn) xs g) = constraints g"
  by (simp add: fold_keeps run_merge_constraints)

lemma relate_constraints: "constraints (relate tn sn text g) = constraints g"
  by (simp add: relate_def Let_def fold_run_merge_constraints run_merge_constraints)

lemma run_create_constraints: "run_create l ps g = Inr g' \<Longrightarrow> constraints g' = constraints g"
  by (auto simp: run_create_def split: if_splits)

lemma seq_Inr: "seq m f = Inr y \<longleftrightarrow> (\<exists>x. m = Inr x \<and> f x = Inr y)"
  by (cases m) (simp_all add: seq_def)

lemma create_temple_node_constraints:
  "create_temple_node td g = Inr g' \<Longrightarrow> constraints g' = constraints g"
  by (auto simp: create_temple_node_def seq_Inr dest: run_create_constraints)

lemma create_relationships_constraints:
  "create_relationships td g = Inr g' \<Longrightarrow> constraints g' = constraints g"
  by (auto simp: create_relationships_def seq_Inr relate_constraints)

lemma load_temples_constraints:
  "constraints (snd (load_temples ts g)) = constraints g"
proof (induction ts arbitrary: g)
  case Nil
  then show ?case by simp
next
  case (Cons t ts)
  show ?case
  proof (cases "create_temple_node t g")
    case (Inl e)
    then show ?thesis by simp
  next
    case (Inr g1)
    note c1 = create_temple_node_constraints [OF Inr]
    show ?thesis
    proof (cases "create_relationships t g1")
      case (Inl e)
      then show ?thesis using Inr c1 by simp
    next
      case (Inr g2)
      then show ?thesis
        using \<open>create_temple_node t g = Inr g1\<close> c1 create_relationships_constraints [OF Inr] Cons.IH
        by simp
    qed
  qed
qed

lemma load_states_constraints:
  "constraints (snd (load_states kvs g)) = constraints g"
proof (induction kvs arbitrary: g)
  case Nil
  then show ?case by simp
next
  case (Cons kv kvs)
  obtain state temples where kv: "kv = (state, temples)" by (cases kv)
  show ?case
  proof (cases "iterate temples")
    case (Inl e)
    then show ?thesis using kv by simp
  next
    case (Inr ts)
    obtain r g1 where l: "load_temples ts g = (r, g1)" by (cases "load_temples ts g")
    then have c: "constraints g1 = constraints g"
      using load_temples_constraints [of ts g] by simp
    show ?thesis using kv Inr l c Cons.IH [of g1] by (cases r) simp_all
  qed
qed

lemma fold_constraint_present:
  "set ls \<subseteq> set (constraints g) \<Longrightarrow>
   fold (\<lambda>l g. case run_constraint l g of Inl e \<Rightarrow> g | Inr g' \<Rightarrow> g') ls g = g"
  by (induction ls arbitrary: g) (simp_all add: run_constraint_def)

lemma fold_constraint_empty:
  "nodes g = [] \<Longrightarrow>
   nodes (fold (\<lambda>l g. case run_constraint l g of Inl e \<Rightarrow> g | Inr g' \<Rightarrow> g') ls g) = [] \<and>
   rels (fold (\<lambda>l g. case run_constraint l g of Inl e \<Rightarrow> g | Inr g' \<Rightarrow> g') ls g) = rels g \<and>
   set (constraints (fold (\<lambda>l g. case run_constraint l g of Inl e \<Rightarrow> g | Inr g' \<Rightarrow> g') ls g))
     = set (constraints g) \<union> set ls"
proof (induction ls arbitrary: g)
  case Nil
  then show ?case by simp
next
  case (Cons l ls)
  let ?g = "case run_constraint l g of Inl e \<Rightarrow> g | Inr g' \<Rightarrow> g'"
  have u: "names_unique l g" using Cons.prems by (simp add: names_unique_def map_filter_simps)
  have "nodes ?g = [] \<and> rels ?g = rels g \<and> set (constraints ?g) = insert l (set (constraints g))"
    using Cons.prems u by (auto simp: run_constraint_def)
  with Cons.IH [of ?g] show ?case by auto
qed

lemma start_of_run:
  "nodes (create_constraints (clear_database g)) = [] \<and>
   rels (create_constraints (clear_database g)) = [] \<and>
   set [Temple, State, Deity, Scripture, ArchitecturalStyle, Festival]
     \<subseteq> set (constraints (create_constraints (clear_database g)))"
  unfolding create_constraints_def
  using fold_constraint_empty [of "clear_database g" "[Temple, State, Deity, Scripture, ArchitecturalStyle, Festival]"]
  by (auto simp: clear_database_def run_clear_def)

lemma start_of_rerun:
  assumes "constraints g1 = constraints (create_constraints (clear_database g))"
  shows "create_constraints (clear_database g1) = create_constraints (clear_database g)"
proof -
  let ?g0 = "create_constraints (clear_database g)"
  have "set [Temple, State, Deity, Scripture, ArchitecturalStyle, Festival]
      \<subseteq> set (constraints (clear_database g1))"
    using start_of_run [of g] assms by (simp add: clear_database_def run_clear_def)
  then have "create_constraints (clear_database g1) = clear_database g1"
    unfolding create_constraints_def by (rule fold_constraint_present)
  moreover have "clear_database g1 = ?g0"
    using start_of_run [of g] assms by (simp add: clear_database_def run_clear_def)
  ultimately show ?thesis by simp
qed

lemma load_temple_data_constraints:
  "constraints (snd (load_temple_data d g)) = constraints (create_constraints (clear_database g))"
  by (simp add: load_temple_data_def Let_def load_states_constraints split: json.splits)

lemma load_temple_data_start:
  "create_constraints (clear_database g1) = create_constraints (clear_database g) \<Longrightarrow>
   load_temple_data d g1 = load_temple_data d g"
  by (simp add: load_temple_data_def Let_def split: json.splits)

text \<open>
  C8. Running \<open>load_temple_data\<close> on a document, and then again on the same document and
  the store that the first run left, ends with the same store: every run clears the store
  first. So the node count of every label and the relationship count are the same after
  the second run as after the first.
\<close>

theorem C8_load_twice:
  "load_temple_data d (snd (load_temple_data d g)) = load_temple_data d g
   \<and> count_nodes l (snd (load_temple_data d (snd (load_temple_data d g))))
       = count_nodes l (snd (load_temple_data d g))
   \<and> count_rels (snd (load_temple_data d (snd (load_temple_data d g))))
       = count_rels (snd (load_temple_data d g))"
proof -
  have "create_constraints (clear_database (snd (load_temple_data d g)))
      = create_constraints (clear_database g)"
    by (rule start_of_rerun) (rule load_temple_data_constraints)
  then have "load_temple_data d (snd (load_temple_data d g)) = load_temple_data d g"
    by (rule load_temple_data_start)
  then show ?thesis by simp
qed

section \<open>The graph upsert layer\<close>


lemma all_text_strings:
  assumes "get td ''info'' (JStr []) = Inr (JStr info)"
    and "get td ''story'' (JStr []) = Inr (JStr story)"
    and "get td ''architecture'' (JStr []) = Inr (JStr architecture)"
    and "get td ''mention_in_scripture'' (JStr []) = Inr (JStr mention)"
  shows "all_text td = Inr (info @ '' '' @ story @ '' '' @ architecture @ '' '' @ mention)"
  using assms by (simp add: all_text_def seq_def join_def)

lemma merge_rel_set: "set (rels (merge_rel r g)) = insert r (set (rels g))"
  by (auto simp: merge_rel_def)


lemma fold_merge_rel_set:
  "set (rels (fold (\<lambda>t. merge_rel (f t)) ts g)) = set (rels g) \<union> f ` set ts"
  by (induction ts arbitrary: g) (auto simp: merge_rel_set)

lemma fold_fold_merge_rel_set:
  "set (rels (fold (\<lambda>x. fold (\<lambda>t. merge_rel (f t x)) ts) xs g)) =
   set (rels g) \<union> {f t x | t x. t \<in> set ts \<and> x \<in> set xs}"
  by (induction xs arbitrary: g) (auto simp: fold_merge_rel_set)

lemma merge_node_nodes:
  "nodes (snd (merge_node l v g)) =
     nodes g @ (if find_nodes l v g = [] then [\<lparr>label = l, props = [(''name'', v)]\<rparr>] else [])"
  by (simp add: merge_node_def)

lemma merge_node_rels: "rels (snd (merge_node l v g)) = rels g"
  by (simp add: merge_node_def)

lemma run_merge_nodes:
  "nodes (run_merge l r v tn g) =
     nodes g @ (if find_nodes l v g = [] then [\<lparr>label = l, props = [(''name'', v)]\<rparr>] else [])"
proof -
  obtain xs g' where m: "merge_node l v g = (xs, g')" by (cases "merge_node l v g")
  then have "nodes g' = nodes g @ (if find_nodes l v g = [] then [\<lparr>label = l, props = [(''name'', v)]\<rparr>] else [])"
    using merge_node_nodes [of l v g] by simp
  moreover have "nodes (run_merge l r v tn g) = nodes g'"
    unfolding run_merge_def m by (simp add: Let_def fold_keeps merge_rel_nodes)
  ultimately show ?thesis by simp
qed



lemma run_merge_rels_mono: "set (rels g) \<subseteq> set (rels (run_merge l r v tn g))"
proof -
  obtain xs g' where m: "merge_node l v g = (xs, g')" by (cases "merge_node l v g")
  then have "rels g' = rels g" using merge_node_rels [of l v g] by simp
  then show ?thesis
    unfolding run_merge_def m by (simp add: Let_def fold_fold_merge_rel_set)
qed

lemma find_nodes_iff:
  "i \<in> set (find_nodes l v g) \<longleftrightarrow> i < length (nodes g) \<and> has_name l v (nodes g ! i)"
  by (auto simp: find_nodes_def)









lemma create_relationships_strings:
  assumes "get td ''info'' (JStr []) = Inr (JStr info)"
    and "get td ''story'' (JStr []) = Inr (JStr story)"
    and "get td ''architecture'' (JStr []) = Inr (JStr architecture)"
    and "get td ''mention_in_scripture'' (JStr []) = Inr (JStr mention)"
    and "get td ''name'' (JStr []) = Inr temple_name"
    and "get td ''state'' (JStr []) = Inr state_name"
  shows "create_relationships td g =
        Inr (relate temple_name state_name
              (info @ '' '' @ story @ '' '' @ architecture @ '' '' @ mention) g)"
  using assms(5,6) all_text_strings [OF assms(1-4)]
  by (simp add: create_relationships_def seq_def)

lemma set_map_filter:
  "y \<in> set (List.map_filter f xs) \<longleftrightarrow> (\<exists>x \<in> set xs. f x = Some y)"
  by (induction xs) (auto simp: map_filter_simps split: option.splits)

lemma node_names_iff:
  "v \<in> node_names l g \<longleftrightarrow>
   (\<exists>n \<in> set (nodes g). label n = l \<and> map_of (props n) ''name'' = Some v)"
  unfolding node_names_def set_map_filter by (auto split: if_splits)

lemma node_names_run_merge:
  assumes "v \<noteq> JNull"
  shows "node_names l (run_merge l r v tn g) = insert v (node_names l g)"
proof (cases "find_nodes l v g = []")
  case True
  then show ?thesis
    by (auto simp: node_names_iff run_merge_nodes)
next
  case False
  then obtain i where "i \<in> set (find_nodes l v g)" by (cases "find_nodes l v g") auto
  then have "i < length (nodes g)" and "has_name l v (nodes g ! i)"
    by (simp_all add: find_nodes_iff)
  then have "v \<in> node_names l g"
    unfolding node_names_iff has_name_def using nth_mem by blast
  then show ?thesis using False by (auto simp: node_names_iff run_merge_nodes)
qed

lemma node_names_run_merge_other:
  "l' \<noteq> l \<Longrightarrow> node_names l' (run_merge l r v tn g) = node_names l' g"
  by (auto simp: node_names_iff run_merge_nodes)

lemma node_names_fold_run_merge:
  "node_names l (fold (\<lambda>x. run_merge l r (JStr x) tn) xs g) = node_names l g \<union> JStr ` set xs"
  by (induction xs arbitrary: g) (auto simp: node_names_run_merge)

lemma node_names_fold_run_merge_other:
  "l' \<noteq> l \<Longrightarrow> node_names l' (fold (\<lambda>x. run_merge l r (f x) tn) xs g) = node_names l' g"
  by (rule fold_keeps) (rule node_names_run_merge_other)

lemma relate_node_names:
  "node_names Deity (relate tn sn t g) = node_names Deity g \<union> JStr ` set (extract_deities t)"
  "node_names Scripture (relate tn sn t g) =
     node_names Scripture g \<union> JStr ` set (extract_scriptures t)"
  "node_names ArchitecturalStyle (relate tn sn t g) =
     node_names ArchitecturalStyle g \<union> JStr ` set (extract_architectural_style t)"
  "node_names Festival (relate tn sn t g) = node_names Festival g \<union> JStr ` set (extract_festivals t)"
  unfolding relate_def Let_def
  by (simp_all add: node_names_fold_run_merge node_names_fold_run_merge_other
      node_names_run_merge_other)

text \<open>
  C7. For a record whose four text fields \<^verbatim>\<open>info\<close>, \<^verbatim>\<open>story\<close>, \<^verbatim>\<open>architecture\<close> and
  \<^verbatim>\<open>mention_in_scripture\<close> are strings or missing (a missing field counts as the empty
  string), the text \<open>all_text\<close> is these four joined by single spaces. Each of the four
  extractors is run on exactly this text: after \<open>create_relationships\<close> the names of
  the Deity nodes are those before together with \<open>extract_deities\<close> of the text, and
  likewise for Scripture, ArchitecturalStyle and Festival with their extractors. The name,
  the state and the visiting guide do not enter: a record that agrees on the four fields
  has the same text.
\<close>

theorem C7_extraction_text:
  assumes "get td ''info'' (JStr []) = Inr (JStr info)"
    and "get td ''story'' (JStr []) = Inr (JStr story)"
    and "get td ''architecture'' (JStr []) = Inr (JStr architecture)"
    and "get td ''mention_in_scripture'' (JStr []) = Inr (JStr mention)"
    and "get td ''name'' (JStr []) = Inr temple_name"
    and "get td ''state'' (JStr []) = Inr state_name"
  shows "(let joined = info @ '' '' @ story @ '' '' @ architecture @ '' '' @ mention
      in all_text td = Inr joined
       \<and> (\<exists>g2. create_relationships td g = Inr g2
            \<and> node_names Deity g2 = node_names Deity g \<union> JStr ` set (extract_deities joined)
            \<and> node_names Scripture g2 =
                node_names Scripture g \<union> JStr ` set (extract_scriptures joined)
            \<and> node_names ArchitecturalStyle g2 =
                node_names ArchitecturalStyle g \<union> JStr ` set (extract_architectural_style joined)
            \<and> node_names Festival g2 =
                node_names Festival g \<union> JStr ` set (extract_festivals joined)))
    \<and> ((\<forall>key \<in> set [''info'', ''story'', ''architecture'', ''mention_in_scripture''].
          get td' key (JStr []) = get td key (JStr [])) \<longrightarrow> all_text td' = all_text td)"
proof -
  define joined where "joined = info @ '' '' @ story @ '' '' @ architecture @ '' '' @ mention"
  have t: "all_text td = Inr joined"
    unfolding joined_def by (rule all_text_strings [OF assms(1-4)])
  have c: "create_relationships td g = Inr (relate temple_name state_name joined g)"
    unfolding joined_def by (rule create_relationships_strings [OF assms])
  have i: "(\<forall>key \<in> set [''info'', ''story'', ''architecture'', ''mention_in_scripture''].
          get td' key (JStr []) = get td key (JStr [])) \<longrightarrow> all_text td' = all_text td"
    by (simp add: all_text_def)
  from t c i show ?thesis
    unfolding Let_def joined_def [symmetric] by (simp add: relate_node_names)
qed

text \<open>
  A record whose name, state and visiting guide each hold a deity name; only the deity of
  the \<^verbatim>\<open>info\<close> field is extracted.
\<close>

theorem C7_extraction_text_witness:
  "all_text (JObj [(''name'', JStr ''Rama Temple''), (''state'', JStr ''Krishna Nagar''),
              (''info'', JStr ''dedicated to Vishnu''), (''visiting_guide'', JStr ''near Lord Shiva'')])
     = Inr ''dedicated to Vishnu   ''
   \<and> (\<exists>g2. create_relationships (JObj [(''name'', JStr ''Rama Temple''),
              (''state'', JStr ''Krishna Nagar''), (''info'', JStr ''dedicated to Vishnu''),
              (''visiting_guide'', JStr ''near Lord Shiva'')])
            \<lparr>nodes = [], rels = [], constraints = []\<rparr> = Inr g2
          \<and> node_names Deity g2 = {JStr ''Vishnu''}
          \<and> node_names Scripture g2 = {}
          \<and> node_names ArchitecturalStyle g2 = {}
          \<and> node_names Festival g2 = {})
   \<and> all_text (JObj [(''info'', JStr ''dedicated to Vishnu''), (''state'', JStr ''Goa'')])
     = all_text (JObj [(''name'', JStr ''Rama Temple''), (''state'', JStr ''Krishna Nagar''),
              (''info'', JStr ''dedicated to Vishnu''), (''visiting_guide'', JStr ''near Lord Shiva'')])"
proof -
  let ?td = "JObj [(''name'', JStr ''Rama Temple''), (''state'', JStr ''Krishna Nagar''),
              (''info'', JStr ''dedicated to Vishnu''), (''visiting_guide'', JStr ''near Lord Shiva'')]"
  let ?td' = "JObj [(''info'', JStr ''dedicated to Vishnu''), (''state'', JStr ''Goa'')]"
  let ?g = "\<lparr>nodes = [], rels = [], constraints = []\<rparr>"
  have 1: "get ?td ''info'' (JStr []) = Inr (JStr ''dedicated to Vishnu'')" by simp
  have 2: "get ?td ''story'' (JStr []) = Inr (JStr [])" by simp
  have 3: "get ?td ''architecture'' (JStr []) = Inr (JStr [])" by simp
  have 4: "get ?td ''mention_in_scripture'' (JStr []) = Inr (JStr [])" by simp
  have 5: "get ?td ''name'' (JStr []) = Inr (JStr ''Rama Temple'')" by simp
  have 6: "get ?td ''state'' (JStr []) = Inr (JStr ''Krishna Nagar'')" by simp
  have 7: "\<forall>key \<in> set [''info'', ''story'', ''architecture'', ''mention_in_scripture''].
          get ?td' key (JStr []) = get ?td key (JStr [])" by simp
  have d: "extract_deities ''dedicated to Vishnu   '' = [''Vishnu'']" by code_simp
  have s: "extract_scriptures ''dedicated to Vishnu   '' = []" by code_simp
  have a: "extract_architectural_style ''dedicated to Vishnu   '' = []" by code_simp
  have f: "extract_festivals ''dedicated to Vishnu   '' = []" by code_simp
  have e: "node_names l ?g = {}" for l by (simp add: node_names_def map_filter_simps)
  from C7_extraction_text [OF 1 2 3 4 5 6, of ?g ?td'] 7
  show ?thesis by (simp add: Let_def d s a f e)
qed





end
